theory Spec2Isabelle
  imports Complex_Main "HOL-Library.Word"
begin

section \<open>Python values, exceptions and built-ins used by \<open>autorag/utils/util.py\<close>\<close>

text \<open>
  Exceptions are values: a function that can raise returns \<open>error + 'a\<close>, with
  \<open>Inl\<close> the exception raised. \<open>OtherError\<close> stands for any exception class that
  the module itself never raises by name (a task of \<open>process_batch\<close> may raise it).
\<close>

datatype error =
    ValueError string
  | KeyError string
  | IndexError string
  | AttributeError string
  | OtherError string

text \<open>
  The Python values that occur as identifiers, cell values and parameter candidates:
  \<open>None\<close>, integers, strings, tuples and lists. On these, Python's \<open>==\<close> is
  structural equality, and a value is hashable unless it is a list or a tuple that
  holds an unhashable value.
\<close>

datatype pyval = PNone | PInt int | PStr string | PTuple "pyval list" | PList "pyval list"

text \<open>
  \<open>xs[a:b]\<close> for integers \<open>a\<close>, \<open>b\<close> and step 1: a negative bound counts from
  the end, both bounds are clamped to \<open>0..len(xs)\<close>, and an empty range gives the
  empty list. Slicing never raises.
\<close>

definition py_slice :: "'a list \<Rightarrow> int \<Rightarrow> int \<Rightarrow> 'a list" where
  "py_slice xs a b =
     (let n = int (length xs);
          lo = (if a < 0 then max (a + n) 0 else min a n);
          hi = (if b < 0 then max (b + n) 0 else min b n)
      in take (nat (hi - lo)) (drop (nat lo) xs))"

text \<open>
  \<open>range(start, stop, step)\<close> for integers: a zero step raises \<open>ValueError\<close>, a
  positive step counts up while below \<open>stop\<close>, a negative step counts down while
  above \<open>stop\<close>.
\<close>

function range_up :: "int \<Rightarrow> int \<Rightarrow> int \<Rightarrow> int list" where
  "range_up i stop step =
     (if 0 < step \<and> i < stop then i # range_up (i + step) stop step else [])"
  by pat_completeness auto
termination
  by (relation "measure (\<lambda>(i, stop, step). nat (stop - i))") auto

function range_down :: "int \<Rightarrow> int \<Rightarrow> int \<Rightarrow> int list" where
  "range_down i stop step =
     (if step < 0 \<and> stop < i then i # range_down (i + step) stop step else [])"
  by pat_completeness auto
termination
  by (relation "measure (\<lambda>(i, stop, step). nat (i - stop))") auto

definition py_range :: "int \<Rightarrow> int \<Rightarrow> int \<Rightarrow> error + int list" where
  "py_range start stop step =
     (if step = 0 then Inl (ValueError ''range() arg 3 must not be zero'')
      else if 0 < step then Inr (range_up start stop step)
      else Inr (range_down start stop step))"

section \<open>\<open>reconstruct_list\<close>\<close>

text \<open>
  \<^verbatim>\<open>
  def reconstruct_list(flat_list, lengths):
      result = []
      start = 0
      for length in lengths:
          result.append(flat_list[start:start + length])
          start += length
      return result
  \<close>
  The loop carries \<open>start\<close> and \<open>result\<close>.
\<close>

fun reconstruct_loop :: "'a list \<Rightarrow> int \<Rightarrow> int list \<Rightarrow> 'a list list \<Rightarrow> 'a list list" where
  "reconstruct_loop flat_list start [] result = result"
| "reconstruct_loop flat_list start (l # ls) result =
     reconstruct_loop flat_list (start + l) ls (result @ [py_slice flat_list start (start + l)])"

definition reconstruct_list :: "'a list \<Rightarrow> int list \<Rightarrow> 'a list list" where
  "reconstruct_list flat_list lengths = reconstruct_loop flat_list 0 lengths []"

text \<open>\<open>list(itertools.chain.from_iterable(rows))\<close> is \<^const>\<open>concat\<close>; \<open>list(map(len, rows))\<close>
  gives the row lengths as Python integers.\<close>

definition row_lengths :: "'a list list \<Rightarrow> int list" where
  "row_lengths rows = map (\<lambda>r. int (length r)) rows"

section \<open>\<open>make_batch\<close>\<close>

text \<open>
  \<^verbatim>\<open>
  def make_batch(elems, batch_size):
      return [elems[i:i + batch_size] for i in range(0, len(elems), batch_size)]
  \<close>
  The only exception the function can raise is the one of \<open>range\<close>.
\<close>

definition make_batch :: "'a list \<Rightarrow> int \<Rightarrow> error + 'a list list" where
  "make_batch elems batch_size =
     (case py_range 0 (int (length elems)) batch_size of
        Inl e \<Rightarrow> Inl e
      | Inr starts \<Rightarrow> Inr (map (\<lambda>i. py_slice elems i (i + batch_size)) starts))"

text \<open>The batches produced from offset \<open>i\<close> on, for the proofs about \<open>make_batch\<close>.\<close>

definition chunks_from :: "'a list \<Rightarrow> int \<Rightarrow> int \<Rightarrow> 'a list list" where
  "chunks_from xs bs i = map (\<lambda>j. py_slice xs j (j + bs)) (range_up i (int (length xs)) bs)"

section \<open>\<open>process_batch\<close>\<close>

text \<open>
  \<^verbatim>\<open>
  async def process_batch(tasks, batch_size: int = 64) -> List[Any]:
      results = []
      for i in tqdm(range(0, len(tasks), batch_size)):
          batch = tasks[i:i + batch_size]
          batch_results = await asyncio.gather(*batch)
          results.extend(batch_results)
      return results
  \<close>
  A task is a deferred computation; it is modelled by its outcome once awaited,
  \<open>Inl e\<close> when it raises \<open>e\<close> and \<open>Inr v\<close> when it returns \<open>v\<close>.

  \<open>asyncio.gather(*batch)\<close> starts every awaitable of the batch. If none raises, it
  returns their results in the order of the awaitables, whatever the order in which
  they finish. If one raises, the first exception raised, in time, is propagated to the
  awaiting caller. The order in which the tasks of a batch finish is a parameter of the
  model: \<open>finish_order\<close> lists positions of the batch, and a task that is not listed
  finishes after the listed ones, in submission order.
\<close>

fun first_raised :: "nat list \<Rightarrow> (error + 'a) list \<Rightarrow> error option" where
  "first_raised [] batch = None"
| "first_raised (p # ps) batch =
     (if p < length batch
      then (case batch ! p of Inl e \<Rightarrow> Some e | Inr v \<Rightarrow> first_raised ps batch)
      else first_raised ps batch)"

fun collect :: "(error + 'a) list \<Rightarrow> error + 'a list" where
  "collect [] = Inr []"
| "collect (Inl e # ts) = Inl e"
| "collect (Inr v # ts) = (case collect ts of Inl e \<Rightarrow> Inl e | Inr vs \<Rightarrow> Inr (v # vs))"

definition gather :: "nat list \<Rightarrow> (error + 'a) list \<Rightarrow> error + 'a list" where
  "gather finish_order batch =
     (case first_raised finish_order batch of Some e \<Rightarrow> Inl e | None \<Rightarrow> collect batch)"

text \<open>
  The loop of \<open>process_batch\<close> over the offsets of \<open>range\<close>. Besides \<open>results\<close> the
  state records \<open>started\<close>, the indices of the tasks handed to \<open>gather\<close> so far, so that
  what has and has not been started is observable. \<open>sched i\<close> is the finishing order of
  the batch at offset \<open>i\<close>.
\<close>

fun run_batches ::
  "(int \<Rightarrow> nat list) \<Rightarrow> (error + 'a) list \<Rightarrow> int \<Rightarrow> int list \<Rightarrow> nat list \<Rightarrow> 'a list
     \<Rightarrow> nat list \<times> (error + 'a list)" where
  "run_batches sched tasks batch_size [] started results = (started, Inr results)"
| "run_batches sched tasks batch_size (i # starts) started results =
     (let batch = py_slice tasks i (i + batch_size);
          started' = started @ map (\<lambda>p. nat i + p) [0..<length batch]
      in case gather (sched i) batch of
           Inl e \<Rightarrow> (started', Inl e)
         | Inr batch_results \<Rightarrow>
             run_batches sched tasks batch_size starts started' (results @ batch_results))"

definition process_batch ::
  "(int \<Rightarrow> nat list) \<Rightarrow> (error + 'a) list \<Rightarrow> int \<Rightarrow> nat list \<times> (error + 'a list)" where
  "process_batch sched tasks batch_size =
     (case py_range 0 (int (length tasks)) batch_size of
        Inl e \<Rightarrow> ([], Inl e)
      | Inr starts \<Rightarrow> run_batches sched tasks batch_size starts [] [])"

section \<open>\<open>fetch_one_content\<close>\<close>

text \<open>
  A \<open>pandas.DataFrame\<close>: named columns, and rows that give every column a value.
  \<open>df[c]\<close> raises \<open>KeyError\<close> for a name that is not a column; \<open>df[mask]\<close> keeps the
  rows where the mask is true; \<open>df.empty\<close> holds when there are no rows or no columns;
  \<open>series.iloc[0]\<close> raises \<open>IndexError\<close> on an empty series.
\<close>

record dataframe =
  df_columns :: "string list"
  df_rows :: "(string \<Rightarrow> pyval) list"

definition get_column :: "dataframe \<Rightarrow> string \<Rightarrow> error + pyval list" where
  "get_column df c =
     (if c \<in> set (df_columns df) then Inr (map (\<lambda>r. r c) (df_rows df)) else Inl (KeyError c))"

definition select_rows :: "dataframe \<Rightarrow> bool list \<Rightarrow> dataframe" where
  "select_rows df keep = df\<lparr>df_rows := map snd (filter fst (zip keep (df_rows df)))\<rparr>"

definition df_empty :: "dataframe \<Rightarrow> bool" where
  "df_empty df = (df_rows df = [] \<or> df_columns df = [])"

definition iloc0 :: "pyval list \<Rightarrow> error + pyval" where
  "iloc0 series =
     (case series of
        [] \<Rightarrow> Inl (IndexError ''single positional indexer is out-of-bounds'')
      | v # _ \<Rightarrow> Inr v)"

text \<open>\<open>isinstance(v, str)\<close>.\<close>

fun is_str :: "pyval \<Rightarrow> bool" where
  "is_str (PStr s) = True"
| "is_str _ = False"

fun str_of :: "pyval \<Rightarrow> string" where
  "str_of (PStr s) = s"
| "str_of _ = []"

text \<open>
  \<^verbatim>\<open>
  def fetch_one_content(corpus_data, id_, column_name='contents'):
      if isinstance(id_, str):
          if id_ in ['', ""]:
              return None
          fetch_result = corpus_data[corpus_data['doc_id'] == id_]
          if fetch_result.empty:
              raise ValueError(f"doc_id: {id_} not found in corpus_data.")
          else:
              return fetch_result[column_name].iloc[0]
      else:
          return None
  \<close>
\<close>

definition not_found :: "string \<Rightarrow> error" where
  "not_found s = ValueError (''doc_id: '' @ s @ '' not found in corpus_data.'')"

definition fetch_one_content :: "dataframe \<Rightarrow> pyval \<Rightarrow> string \<Rightarrow> error + pyval" where
  "fetch_one_content corpus_data doc_id column_name =
     (if is_str doc_id then
        if str_of doc_id = [] then Inr PNone
        else
          (case get_column corpus_data ''doc_id'' of
             Inl e \<Rightarrow> Inl e
           | Inr doc_ids \<Rightarrow>
               (let fetch_result = select_rows corpus_data (map (\<lambda>v. v = doc_id) doc_ids)
                in if df_empty fetch_result then Inl (not_found (str_of doc_id))
                   else (case get_column fetch_result column_name of
                           Inl e \<Rightarrow> Inl e
                         | Inr series \<Rightarrow> iloc0 series)))
      else Inr PNone)"

text \<open>Two concrete stores: one with a duplicated key, one without any column.\<close>

definition sample_corpus :: dataframe where
  "sample_corpus =
     \<lparr>df_columns = [''doc_id'', ''contents''],
      df_rows = [(\<lambda>c. if c = ''doc_id'' then PStr ''d1'' else PStr ''first''),
                 (\<lambda>c. if c = ''doc_id'' then PStr ''d2'' else PStr ''second''),
                 (\<lambda>c. if c = ''doc_id'' then PStr ''d2'' else PStr ''third'')]\<rparr>"

definition no_columns :: dataframe where
  "no_columns = \<lparr>df_columns = [], df_rows = []\<rparr>"

section \<open>\<open>flatten_apply\<close>\<close>

text \<open>
  \<^verbatim>\<open>
  def flatten_apply(func, nested_list, **kwargs):
      df = pd.DataFrame({'col1': nested_list})
      df = df.explode('col1')
      df['result'] = func(df['col1'].tolist(), **kwargs)
      return df.groupby(level=0, sort=False)['result'].apply(list).tolist()
  \<close>
  The frame is a list of pairs of an index label, the position of the row in
  \<open>nested_list\<close>, and a cell. \<open>explode\<close> gives every element of a row a line of its
  own under the row's label, and gives an empty row one line holding NaN; the value NaN
  is the parameter \<open>nan\<close>.

  \<open>df['result'] = values\<close> does not keep the list as it is: pandas builds a column from
  it and infers the type of the column, so that what \<open>apply(list)\<close> reads back later may
  be converted values. This step is the parameter \<open>to_column\<close>, from the list assigned
  to the values read back; \<open>pandas_column\<close> below is pandas' inference on a small
  universe of cells. The assignment checks the length of the list against the frame,
  except that a frame without lines takes its index \<open>0, 1, ...\<close> from the values
  assigned. \<open>groupby(level=0, sort=False)\<close> collects the values of each label in order
  of arrival, the labels in order of first appearance.
\<close>

definition df_explode :: "'a \<Rightarrow> 'a list list \<Rightarrow> (nat \<times> 'a) list" where
  "df_explode nan col =
     concat (map (\<lambda>(i, row). if row = [] then [(i, nan)] else map (Pair i) row)
                 (enumerate 0 col))"

fun group_insert :: "nat \<Rightarrow> 'b \<Rightarrow> (nat \<times> 'b list) list \<Rightarrow> (nat \<times> 'b list) list" where
  "group_insert k v [] = [(k, [v])]"
| "group_insert k v ((k', vs) # groups) =
     (if k' = k then (k', vs @ [v]) # groups else (k', vs) # group_insert k v groups)"

definition groupby_level0 :: "(nat \<times> 'b) list \<Rightarrow> (nat \<times> 'b list) list" where
  "groupby_level0 frame = foldl (\<lambda>groups (k, v). group_insert k v groups) [] frame"

definition flatten_apply ::
  "'a \<Rightarrow> ('b list \<Rightarrow> 'b list) \<Rightarrow> ('a list \<Rightarrow> error + 'b list) \<Rightarrow> 'a list list
     \<Rightarrow> error + 'b list list" where
  "flatten_apply nan to_column func nested_list =
     (let df = df_explode nan nested_list
      in case func (map snd df) of
           Inl e \<Rightarrow> Inl e
         | Inr result \<Rightarrow>
             if length result = length df
             then Inr (map snd (groupby_level0 (zip (map fst df) (to_column result))))
             else if df = [] then Inr (map (\<lambda>r. [r]) (to_column result))
             else Inl (ValueError ''Length of values does not match length of index''))"



text \<open>
  The type inference of pandas (version 2) on an assigned list, for cells that are \<open>None\<close>, the
  float NaN, a finite float, an integer that fits 64 bits (a word, read as signed), or a
  string. A string makes
  the column an object column, which keeps every value as it is. Without strings, a
  column that holds \<open>None\<close> or NaN beside any number or NaN becomes a \<open>float64\<close>
  column: \<open>None\<close> is read back as NaN and an integer as the nearest float; a column of
  \<open>None\<close> only stays an object column. Without \<open>None\<close> and NaN, integers beside
  floats become floats, and integers alone stay integers.
\<close>

datatype cell = CNone | CNaN | CFloat real | CInt "64 word" | CStr string

text \<open>
  The \<open>float64\<close> nearest to an integer: 53 significant bits, ties to the even
  significand.
\<close>

function mantissa_shift :: "nat \<Rightarrow> nat" where
  "mantissa_shift a = (if a < 2 ^ 53 then 0 else Suc (mantissa_shift (a div 2)))"
  by pat_completeness auto
termination
  by (relation "measure (\<lambda>a. a)") auto

definition float64_of_int :: "int \<Rightarrow> real" where
  "float64_of_int i =
     (let a = nat \<bar>i\<bar>;
          e = mantissa_shift a;
          q = a div 2 ^ e;
          r = a mod 2 ^ e;
          m = (if 2 ^ e < 2 * r \<or> (2 * r = 2 ^ e \<and> odd q) then q + 1 else q) * 2 ^ e
      in if i < 0 then - real m else real m)"

fun to_float :: "cell \<Rightarrow> cell" where
  "to_float CNone = CNaN"
| "to_float CNaN = CNaN"
| "to_float (CFloat f) = CFloat f"
| "to_float (CInt i) = CFloat (float64_of_int (sint i))"
| "to_float (CStr s) = CStr s"

fun is_cstr :: "cell \<Rightarrow> bool" where
  "is_cstr (CStr s) = True"
| "is_cstr _ = False"

fun is_cfloat :: "cell \<Rightarrow> bool" where
  "is_cfloat (CFloat f) = True"
| "is_cfloat _ = False"

fun is_null :: "cell \<Rightarrow> bool" where
  "is_null CNone = True"
| "is_null CNaN = True"
| "is_null _ = False"

definition pandas_column :: "cell list \<Rightarrow> cell list" where
  "pandas_column values =
     (if list_ex is_cstr values then values
      else if list_ex is_null values then
        (if list_all (\<lambda>v. v = CNone) values then values else map to_float values)
      else if list_ex is_cfloat values then map to_float values
      else values)"

section \<open>\<open>make_combinations\<close>\<close>

text \<open>
  \<^verbatim>\<open>
  def make_combinations(target_dict):
      dict_with_lists = dict(map(lambda x: (x[0], x[1] if isinstance(x[1], list) else [x[1]]),
                                 target_dict.items()))
      def delete_duplicate(x):
          def is_hashable(obj):
              try:
                  hash(obj); return True
              except TypeError:
                  return False
          if any([not is_hashable(elem) for elem in x]):
              return x
          else:
              return list(set(x))
      dict_with_lists = dict(map(lambda x: (x[0], delete_duplicate(x[1])), dict_with_lists.items()))
      combination = list(itertools.product(*dict_with_lists.values()))
      combination_dicts = [dict(zip(dict_with_lists.keys(), combo)) for combo in combination]
      return combination_dicts
  \<close>
  A dict is the list of its items in insertion order, with distinct keys.
  \<open>itertools.product\<close> is \<^const>\<open>product_lists\<close>: the last list varies fastest. The
  order in which \<open>list(set(x))\<close> enumerates a set is not fixed by the language, so the
  enumeration is the parameter \<open>list_of_set\<close>.
\<close>

fun is_hashable :: "pyval \<Rightarrow> bool" where
  "is_hashable (PList xs) = False"
| "is_hashable (PTuple xs) = list_all is_hashable xs"
| "is_hashable v = True"

definition as_list :: "pyval \<Rightarrow> pyval list" where
  "as_list v = (case v of PList xs \<Rightarrow> xs | _ \<Rightarrow> [v])"

definition delete_duplicate :: "(pyval list \<Rightarrow> pyval list) \<Rightarrow> pyval list \<Rightarrow> pyval list" where
  "delete_duplicate list_of_set x =
     (if list_ex (\<lambda>elem. \<not> is_hashable elem) x then x else list_of_set x)"

definition make_combinations ::
  "(pyval list \<Rightarrow> pyval list) \<Rightarrow> (string \<times> pyval) list \<Rightarrow> (string \<times> pyval) list list" where
  "make_combinations list_of_set target_dict =
     (let dict_with_lists = map (\<lambda>x. (fst x, as_list (snd x))) target_dict;
          dict_with_lists' =
            map (\<lambda>x. (fst x, delete_duplicate list_of_set (snd x))) dict_with_lists;
          combination = product_lists (map snd dict_with_lists')
      in map (\<lambda>combo. zip (map fst dict_with_lists') combo) combination)"

text \<open>What is required of an enumeration of \<open>set(x)\<close>: each element of \<open>x\<close> once.\<close>

definition enumerates_sets :: "(pyval list \<Rightarrow> pyval list) \<Rightarrow> bool" where
  "enumerates_sets list_of_set =
     (\<forall>x. distinct (list_of_set x) \<and> set (list_of_set x) = set x)"

text \<open>A concrete parameter space, with a repeated candidate and a single value.\<close>

definition sample_space :: "(string \<times> pyval) list" where
  "sample_space = [(''a'', PList [PInt 1, PInt 1, PInt 2]), (''b'', PStr ''x'')]"

section \<open>\<open>embedding_query_content\<close>\<close>

text \<open>
  \<^verbatim>\<open>
  def openai_truncate_by_token(texts, token_limit, model_name):
      tokenizer = tiktoken.encoding_for_model(model_name)
      def truncate_text(text, limit, tokenizer):
          tokens = tokenizer.encode(text)
          if len(tokens) <= limit:
              return text
          truncated_text = tokenizer.decode(tokens[:limit])
          return truncated_text
      return list(map(lambda x: truncate_text(x, token_limit, tokenizer), texts))
  \<close>
  The tokenizers of \<open>tiktoken\<close> are a parameter, \<open>encoding_for_model\<close>.
\<close>

record tokenizer =
  encode :: "string \<Rightarrow> nat list"
  decode :: "nat list \<Rightarrow> string"

definition truncate_text :: "string \<Rightarrow> int \<Rightarrow> tokenizer \<Rightarrow> string" where
  "truncate_text text limit tok =
     (let tokens = encode tok text
      in if int (length tokens) \<le> limit then text
         else decode tok (py_slice tokens 0 limit))"

definition openai_truncate_by_token ::
  "(string \<Rightarrow> tokenizer) \<Rightarrow> string list \<Rightarrow> int \<Rightarrow> string \<Rightarrow> string list" where
  "openai_truncate_by_token encoding_for_model texts token_limit name =
     (let tok = encoding_for_model name
      in map (\<lambda>x. truncate_text x token_limit tok) texts)"

text \<open>
  \<^verbatim>\<open>
  def embedding_query_content(queries, contents_list, embedding_model=None, batch=128):
      flatten_contents = list(itertools.chain.from_iterable(contents_list))
      openai_embedding_limit = 8191
      if isinstance(embedding_model, OpenAIEmbedding):
          queries = openai_truncate_by_token(queries, openai_embedding_limit,
                                             embedding_model.model_name)
          flatten_contents = openai_truncate_by_token(flatten_contents, openai_embedding_limit,
                                                      embedding_model.model_name)
      embedding_model.embed_batch_size = batch
      query_embeddings = embedding_model.get_text_embedding_batch(queries)
      content_lengths = list(map(len, contents_list))
      content_embeddings_flatten = embedding_model.get_text_embedding_batch(flatten_contents)
      content_embeddings = reconstruct_list(content_embeddings_flatten, content_lengths)
      return query_embeddings, content_embeddings
  \<close>
  The embedding model is an object of the caller: whether it is an \<open>OpenAIEmbedding\<close>,
  its model name, its batch size, and its method \<open>get_text_embedding_batch\<close>, which
  reads the batch size of the object. The default \<open>None\<close> has no attributes.
\<close>

record 'v embedding_model =
  is_openai :: bool
  model_name :: string
  embed_batch_size :: int
  text_embedding_batch :: "int \<Rightarrow> string list \<Rightarrow> 'v list"

definition get_text_embedding_batch :: "'v embedding_model \<Rightarrow> string list \<Rightarrow> 'v list" where
  "get_text_embedding_batch m texts = text_embedding_batch m (embed_batch_size m) texts"

definition embedding_query_content ::
  "(string \<Rightarrow> tokenizer) \<Rightarrow> string list \<Rightarrow> string list list \<Rightarrow> 'v embedding_model option \<Rightarrow> int
     \<Rightarrow> error + ('v list \<times> 'v list list)" where
  "embedding_query_content encoding_for_model queries contents_list embedding_model batch =
     (let flatten_contents = concat contents_list;
          openai_embedding_limit = 8191
      in case embedding_model of
           None \<Rightarrow>
             Inl (AttributeError ''NoneType object has no attribute embed_batch_size'')
         | Some m \<Rightarrow>
             (let queries' =
                    (if is_openai m
                     then openai_truncate_by_token encoding_for_model queries
                            openai_embedding_limit (model_name m)
                     else queries);
                  flatten_contents' =
                    (if is_openai m
                     then openai_truncate_by_token encoding_for_model flatten_contents
                            openai_embedding_limit (model_name m)
                     else flatten_contents);
                  m' = m\<lparr>embed_batch_size := batch\<rparr>;
                  query_embeddings = get_text_embedding_batch m' queries';
                  content_lengths = row_lengths contents_list;
                  content_embeddings_flatten = get_text_embedding_batch m' flatten_contents';
                  content_embeddings = reconstruct_list content_embeddings_flatten content_lengths
              in Inr (query_embeddings, content_embeddings)))"

text \<open>The texts handed to the provider: truncated for an \<open>OpenAIEmbedding\<close>, as given otherwise.\<close>

definition embedded_texts :: "(string \<Rightarrow> tokenizer) \<Rightarrow> 'v embedding_model \<Rightarrow> string list \<Rightarrow> string list" where
  "embedded_texts encoding_for_model m texts =
     (if is_openai m then openai_truncate_by_token encoding_for_model texts 8191 (model_name m)
      else texts)"

text \<open>
  A concrete provider and tokenizer: the vector of a text is its length, a token is a
  character.
\<close>

definition length_embedder :: "nat embedding_model" where
  "length_embedder =
     \<lparr>is_openai = False, model_name = ''lengths'', embed_batch_size = 10,
      text_embedding_batch = (\<lambda>b texts. map length texts)\<rparr>"

definition char_tokenizer :: "string \<Rightarrow> tokenizer" where
  "char_tokenizer name = \<lparr>encode = map of_char, decode = map char_of\<rparr>"

definition sample_contents :: "string list list" where
  "sample_contents = [[''a'', ''bb'', ''ccc''], [], [''dddd'', ''e'']]"

text \<open>A schedule for concrete runs: in every batch the tasks finish in submission order.\<close>

definition submission_order :: "int \<Rightarrow> nat list" where
  "submission_order i = []"

section \<open>Slices\<close>

declare range_up.simps [simp del] range_down.simps [simp del] mantissa_shift.simps [simp del]

lemma range_down_empty: "i \<le> stop \<Longrightarrow> range_down i stop step = []"
  by (simp add: range_down.simps)


lemma py_slice_nonneg:
  "0 \<le> a \<Longrightarrow> 0 \<le> b \<Longrightarrow> py_slice xs a b = take (nat b - nat a) (drop (nat a) xs)"
  by (cases "b \<le> a") (auto simp: py_slice_def Let_def min_def nat_diff_distrib')

lemma py_slice_nat:
  "py_slice xs (int i) (int i + int k) = take k (drop i xs)"
  using py_slice_nonneg [of "int i" "int i + int k" xs] by (simp add: nat_add_distrib)

section \<open>Reconstruction\<close>

lemma reconstruct_loop_acc:
  "reconstruct_loop flat start ls res = res @ reconstruct_loop flat start ls []"
proof (induction ls arbitrary: start res)
  case Nil
  show ?case by simp
next
  case (Cons l ls)
  show ?case
    using Cons.IH [of "start + l" "res @ [py_slice flat start (start + l)]"]
          Cons.IH [of "start + l" "[py_slice flat start (start + l)]"]
    by simp
qed

lemma reconstruct_loop_Cons:
  "reconstruct_loop flat start (l # ls) [] =
     py_slice flat start (start + l) # reconstruct_loop flat (start + l) ls []"
  using reconstruct_loop_acc [of flat "start + l" ls "[py_slice flat start (start + l)]"]
  by simp

lemma reconstruct_loop_concat:
  "reconstruct_loop (pre @ concat rows) (int (length pre)) (row_lengths rows) [] = rows"
proof (induction rows arbitrary: pre)
  case Nil
  show ?case by (simp add: row_lengths_def)
next
  case (Cons r rows)
  have step: "reconstruct_loop ((pre @ r) @ concat rows) (int (length (pre @ r))) (row_lengths rows) [] = rows"
    by (rule Cons.IH)
  have head: "py_slice (pre @ r @ concat rows) (int (length pre)) (int (length pre) + int (length r)) = r"
    by (simp add: py_slice_nat)
  show ?case
    using step head
    by (simp add: row_lengths_def reconstruct_loop_Cons del: reconstruct_loop.simps)
qed

text \<open>
  Claim C1 (round-trip law). For every ragged list of rows, of any lengths including
  zero, flattening the rows in order and calling \<open>reconstruct_list\<close> with the original
  row lengths gives back exactly the input rows.
\<close>

theorem reconstruct_list_roundtrip:
  "reconstruct_list (concat rows) (row_lengths rows) = rows"
  using reconstruct_loop_concat [of "[]" rows] by (simp add: reconstruct_list_def)

theorem reconstruct_list_roundtrip_witness:
  "reconstruct_list (concat [[1, 2], [], [3 :: int]]) (row_lengths [[1, 2], [], [3 :: int]]) =
     [[1, 2], [], [3]]"
  using reconstruct_list_roundtrip [of "[[1, 2], [], [3 :: int]]"] .

lemma reconstruct_loop_length:
  "length (reconstruct_loop flat start ls []) = length ls"
proof (induction ls arbitrary: start)
  case Nil
  show ?case by simp
next
  case (Cons l ls)
  show ?case
    using Cons.IH [of "start + l"] by (simp add: reconstruct_loop_Cons del: reconstruct_loop.simps)
qed

lemma reconstruct_loop_nth:
  "i < length ls \<Longrightarrow>
     reconstruct_loop flat start ls [] ! i =
       py_slice flat (start + sum_list (take i ls)) (start + sum_list (take (Suc i) ls))"
proof (induction ls arbitrary: start i)
  case Nil
  then show ?case by simp
next
  case (Cons l ls)
  show ?case
  proof (cases i)
    case 0
    then show ?thesis by (simp add: reconstruct_loop_Cons del: reconstruct_loop.simps)
  next
    case (Suc j)
    then have "j < length ls" using Cons.prems by simp
    from Cons.IH [OF this, of "start + l"] Suc show ?thesis
      by (simp add: reconstruct_loop_Cons add.assoc del: reconstruct_loop.simps)
  qed
qed

lemma reconstruct_loop_concat_take:
  "\<forall>l \<in> set ls. 0 \<le> l \<Longrightarrow> 0 \<le> start \<Longrightarrow>
     concat (reconstruct_loop flat start ls []) = take (nat (sum_list ls)) (drop (nat start) flat)"
proof (induction ls arbitrary: start)
  case Nil
  show ?case by simp
next
  case (Cons l ls)
  have l0: "0 \<le> l" and rest: "\<forall>l \<in> set ls. 0 \<le> l" using Cons.prems(1) by simp_all
  have s0: "0 \<le> sum_list ls" using rest by (simp add: sum_list_nonneg)
  have hd: "py_slice flat start (start + l) = take (nat l) (drop (nat start) flat)"
    using py_slice_nonneg [of start "start + l" flat] Cons.prems(2) l0
    by (simp add: nat_add_distrib)
  have tl: "concat (reconstruct_loop flat (start + l) ls []) =
              take (nat (sum_list ls)) (drop (nat (start + l)) flat)"
    using Cons.IH [OF rest, of "start + l"] Cons.prems(2) l0 by simp
  have dd: "drop (nat (start + l)) flat = drop (nat l) (drop (nat start) flat)"
    using Cons.prems(2) l0 by (simp add: nat_add_distrib add.commute)
  have nn: "nat (sum_list (l # ls)) = nat l + nat (sum_list ls)"
    using l0 s0 by (simp add: nat_add_distrib)
  show ?case
    unfolding reconstruct_loop_Cons concat.simps hd tl dd nn
    by (simp add: take_add)
qed

text \<open>
  Claim C3, as the code has it. \<open>reconstruct_list\<close> compares nothing with
  \<open>len(flat_list)\<close> and raises nothing: it returns one row per declared length, row
  \<open>i\<close> being the slice of \<open>flat_list\<close> between the sum of the earlier lengths and
  that sum plus the \<open>i\<close>-th length. For non-negative lengths the rows, read in order,
  are the first \<open>sum(lengths)\<close> elements of \<open>flat_list\<close>: surplus elements are left
  out and rows that reach past the end are short or empty.
\<close>

theorem reconstruct_list_unchecked:
  "length (reconstruct_list flat_list lengths) = length lengths \<and>
   (\<forall>i < length lengths.
      reconstruct_list flat_list lengths ! i =
        py_slice flat_list (sum_list (take i lengths)) (sum_list (take (Suc i) lengths))) \<and>
   ((\<forall>l \<in> set lengths. 0 \<le> l) \<longrightarrow>
      concat (reconstruct_list flat_list lengths) = take (nat (sum_list lengths)) flat_list)"
  using reconstruct_loop_length [of flat_list 0 lengths]
    reconstruct_loop_nth [of _ lengths flat_list 0]
    reconstruct_loop_concat_take [of lengths 0 flat_list]
  by (simp add: reconstruct_list_def)

theorem reconstruct_list_unchecked_witness:
  "length (reconstruct_list [1, 2, 3 :: int] [2]) = length [2 :: int] \<and>
   reconstruct_list [1, 2, 3 :: int] [2] ! 0 =
     py_slice [1, 2, 3] (sum_list (take 0 [2])) (sum_list (take (Suc 0) [2])) \<and>
   (0 :: int) \<le> 2 \<and>
   concat (reconstruct_list [1, 2, 3 :: int] [2]) = take (nat (sum_list [2])) [1, 2, 3]"
  using reconstruct_list_unchecked [of "[1, 2, 3 :: int]" "[2]"] by simp

text \<open>
  The claim as stated fails: with lengths summing to less or to more than
  \<open>len(flat_list)\<close> a list of rows is returned, truncated or short.
\<close>

theorem reconstruct_list_mismatch_counterexample:
  "sum_list [2] \<noteq> int (length [1, 2, 3 :: int]) \<and>
   reconstruct_list [1, 2, 3 :: int] [2] = [[1, 2]] \<and>
   sum_list [1, 3] \<noteq> int (length [1, 2, 3 :: int]) \<and>
   reconstruct_list [1, 2, 3 :: int] [1, 3] = [[1], [2, 3]]"
  by (simp add: reconstruct_list_def py_slice_def)

section \<open>Batches\<close>

lemma chunk_take:
  "0 \<le> i \<Longrightarrow> 0 < bs \<Longrightarrow> py_slice xs i (i + bs) = take (nat bs) (drop (nat i) xs)"
  using py_slice_nonneg [of i "i + bs" xs] by (simp add: nat_add_distrib)

lemma chunks_from_step:
  "0 < bs \<Longrightarrow> 0 \<le> i \<Longrightarrow> i < int (length xs) \<Longrightarrow>
     chunks_from xs bs i = take (nat bs) (drop (nat i) xs) # chunks_from xs bs (i + bs)"
  unfolding chunks_from_def
  by (subst range_up.simps) (simp add: chunk_take)

lemma chunks_from_stop:
  "int (length xs) \<le> i \<Longrightarrow> chunks_from xs bs i = []"
  unfolding chunks_from_def by (subst range_up.simps) simp

lemma chunks_from_concat:
  "0 < bs \<Longrightarrow> 0 \<le> i \<Longrightarrow> concat (chunks_from xs bs i) = drop (nat i) xs"
proof (induction i "int (length xs)" bs rule: range_up.induct)
  case (1 i bs)
  show ?case
  proof (cases "i < int (length xs)")
    case True
    have a: "chunks_from xs bs i = take (nat bs) (drop (nat i) xs) # chunks_from xs bs (i + bs)"
      using "1.prems" True by (intro chunks_from_step)
    have b: "concat (chunks_from xs bs (i + bs)) = drop (nat (i + bs)) xs"
      using "1.prems" True by (intro "1.hyps") auto
    have c: "nat (i + bs) = nat bs + nat i"
      using "1.prems" by (simp add: nat_add_distrib)
    have d: "drop (nat bs + nat i) xs = drop (nat bs) (drop (nat i) xs)"
      by simp
    show ?thesis
      by (simp only: a b c d concat.simps append_take_drop_id)
  next
    case False
    then show ?thesis by (simp add: chunks_from_stop)
  qed
qed

lemma chunks_from_sizes:
  "0 < bs \<Longrightarrow> 0 \<le> i \<Longrightarrow> b \<in> set (chunks_from xs bs i) \<Longrightarrow> b \<noteq> [] \<and> int (length b) \<le> bs"
proof (induction i "int (length xs)" bs rule: range_up.induct)
  case (1 i bs)
  show ?case
  proof (cases "i < int (length xs)")
    case True
    have a: "chunks_from xs bs i = take (nat bs) (drop (nat i) xs) # chunks_from xs bs (i + bs)"
      using "1.prems" True by (intro chunks_from_step)
    from "1.prems"(3) a
    consider "b = take (nat bs) (drop (nat i) xs)" | "b \<in> set (chunks_from xs bs (i + bs))"
      by auto
    then show ?thesis
    proof cases
      case 1
      then show ?thesis using True "1.prems"(1,2) by auto
    next
      case 2
      show ?thesis
        using "1.prems"(1,2) True 2 by (intro "1.hyps") auto
    qed
  next
    case False
    then show ?thesis using "1.prems" by (simp add: chunks_from_stop)
  qed
qed

lemma chunks_from_full:
  "0 < bs \<Longrightarrow> 0 \<le> i \<Longrightarrow> b \<in> set (butlast (chunks_from xs bs i)) \<Longrightarrow> int (length b) = bs"
proof (induction i "int (length xs)" bs rule: range_up.induct)
  case (1 i bs)
  show ?case
  proof (cases "i + bs < int (length xs)")
    case True
    then have lt: "i < int (length xs)" using "1.prems"(1) by simp
    have a: "chunks_from xs bs i = take (nat bs) (drop (nat i) xs) # chunks_from xs bs (i + bs)"
      using "1.prems" lt by (intro chunks_from_step)
    have ne: "chunks_from xs bs (i + bs) \<noteq> []"
      using chunks_from_step [of bs "i + bs" xs] "1.prems"(1,2) True by simp
    from "1.prems"(3) a ne
    consider "b = take (nat bs) (drop (nat i) xs)" | "b \<in> set (butlast (chunks_from xs bs (i + bs)))"
      by auto
    then show ?thesis
    proof cases
      case 1
      then show ?thesis using True "1.prems"(1,2) by auto
    next
      case 2
      show ?thesis
        using "1.prems"(1,2) lt 2 by (intro "1.hyps") auto
    qed
  next
    case False
    have "butlast (chunks_from xs bs i) = []"
    proof (cases "i < int (length xs)")
      case True
      have "chunks_from xs bs i = take (nat bs) (drop (nat i) xs) # chunks_from xs bs (i + bs)"
        using "1.prems" True by (intro chunks_from_step)
      moreover have "chunks_from xs bs (i + bs) = []"
        using False by (intro chunks_from_stop) simp
      ultimately show ?thesis by simp
    next
      case False
      then show ?thesis by (simp add: chunks_from_stop)
    qed
    then show ?thesis using "1.prems"(3) by simp
  qed
qed

lemma make_batch_pos:
  "0 < bs \<Longrightarrow> make_batch xs bs = Inr (chunks_from xs bs 0)"
  by (simp add: make_batch_def py_range_def chunks_from_def)

text \<open>
  Claim C6, as the code has it. \<open>make_batch\<close> has no check of its own on
  \<open>batch_size\<close>: a zero batch size raises the \<open>ValueError\<close> of \<open>range\<close>, a negative
  batch size returns the empty list of batches without any error, and a positive batch
  size returns consecutive chunks whose concatenation is \<open>elems\<close>, every chunk but the
  last of length exactly \<open>batch_size\<close>, the last one non-empty and not longer.
\<close>

theorem make_batch_cases:
  "(batch_size = 0 \<longrightarrow>
      make_batch elems batch_size = Inl (ValueError ''range() arg 3 must not be zero'')) \<and>
   (batch_size < 0 \<longrightarrow> make_batch elems batch_size = Inr []) \<and>
   (0 < batch_size \<longrightarrow>
      (\<exists>batches. make_batch elems batch_size = Inr batches \<and>
         concat batches = elems \<and>
         (\<forall>b \<in> set (butlast batches). int (length b) = batch_size) \<and>
         (\<forall>b \<in> set batches. b \<noteq> [] \<and> int (length b) \<le> batch_size)))"
proof (intro conjI impI)
  assume "batch_size = 0"
  then show "make_batch elems batch_size = Inl (ValueError ''range() arg 3 must not be zero'')"
    by (simp add: make_batch_def py_range_def)
next
  assume "batch_size < 0"
  then show "make_batch elems batch_size = Inr []"
    by (simp add: make_batch_def py_range_def range_down_empty)
next
  assume pos: "0 < batch_size"
  show "\<exists>batches. make_batch elems batch_size = Inr batches \<and>
         concat batches = elems \<and>
         (\<forall>b \<in> set (butlast batches). int (length b) = batch_size) \<and>
         (\<forall>b \<in> set batches. b \<noteq> [] \<and> int (length b) \<le> batch_size)"
    using pos make_batch_pos [OF pos, of elems] chunks_from_concat [OF pos, of 0 elems]
      chunks_from_full [OF pos, of 0 _ elems] chunks_from_sizes [OF pos, of 0 _ elems]
    by auto
qed

theorem make_batch_cases_witness:
  "(0 :: int) < 2 \<and>
   (\<exists>batches. make_batch [1, 2, 3, 4, 5 :: int] 2 = Inr batches \<and>
      concat batches = [1, 2, 3, 4, 5] \<and>
      (\<forall>b \<in> set (butlast batches). int (length b) = 2) \<and>
      (\<forall>b \<in> set batches. b \<noteq> [] \<and> int (length b) \<le> 2)) \<and>
   make_batch [1, 2, 3 :: int] 0 = Inl (ValueError ''range() arg 3 must not be zero'') \<and>
   (- 2 :: int) < 0 \<and> make_batch [1, 2, 3 :: int] (- 2) = Inr []"
  using make_batch_cases [of 2 "[1, 2, 3, 4, 5 :: int]"] make_batch_cases [of 0 "[1, 2, 3 :: int]"]
    make_batch_cases [of "- 2" "[1, 2, 3 :: int]"]
  by simp

text \<open>
  The claim as stated fails for a negative batch size: no error is raised, the result
  is the empty list.
\<close>

theorem make_batch_negative_counterexample:
  "make_batch [1, 2, 3 :: int] (- 1) = Inr []"
  by (simp add: make_batch_def py_range_def range_down.simps)

section \<open>Batched execution\<close>

lemma first_raised_None:
  "\<forall>t \<in> set batch. \<not> isl t \<Longrightarrow> first_raised ord batch = None"
proof (induction ord)
  case Nil
  show ?case by simp
next
  case (Cons p ps)
  then show ?case
    by (cases "batch ! p") (auto simp: all_set_conv_all_nth)
qed

lemma first_raised_mem:
  "first_raised ord batch = Some e \<Longrightarrow> Inl e \<in> set batch"
proof (induction ord)
  case Nil
  then show ?case by simp
next
  case (Cons p ps)
  then show ?case
    by (cases "batch ! p") (auto split: if_splits dest: nth_mem)
qed

lemma collect_ok:
  "\<forall>t \<in> set batch. \<not> isl t \<Longrightarrow> collect batch = Inr (map projr batch)"
proof (induction batch)
  case Nil
  show ?case by simp
next
  case (Cons t ts)
  then show ?case by (cases t) auto
qed

lemma collect_fails:
  "\<exists>t \<in> set batch. isl t \<Longrightarrow> \<exists>e. collect batch = Inl e \<and> Inl e \<in> set batch"
proof (induction batch)
  case Nil
  then show ?case by simp
next
  case (Cons t ts)
  show ?case
  proof (cases t)
    case (Inl e)
    then show ?thesis by auto
  next
    case (Inr v)
    then have "\<exists>t \<in> set ts. isl t" using Cons.prems by auto
    from Cons.IH [OF this] Inr show ?thesis by auto
  qed
qed

lemma gather_ok:
  "\<forall>t \<in> set batch. \<not> isl t \<Longrightarrow> gather ord batch = Inr (map projr batch)"
  by (simp add: gather_def first_raised_None collect_ok)

lemma gather_fails:
  assumes "\<exists>t \<in> set batch. isl t"
  shows "\<exists>e. gather ord batch = Inl e \<and> Inl e \<in> set batch"
proof (cases "first_raised ord batch")
  case None
  then show ?thesis using collect_fails [OF assms] by (simp add: gather_def)
next
  case (Some e)
  then show ?thesis using first_raised_mem [OF Some] by (simp add: gather_def)
qed

lemma range_up_nat:
  "0 < k \<Longrightarrow> range_up (int i) (int n) (int k) =
     (if i < n then int i # range_up (int (i + k)) (int n) (int k) else [])"
  by (subst range_up.simps) simp

lemma started_upt: "map (\<lambda>p. i + p) [0..<m] = [i..<i + m]"
  by (induction m) simp_all

lemma run_batches_step:
  "run_batches sched tasks (int k) (int i # starts) st res =
     (case gather (sched (int i)) (take k (drop i tasks)) of
        Inl e \<Rightarrow> (st @ [i..<min (length tasks) (i + k)], Inl e)
      | Inr vs \<Rightarrow> run_batches sched tasks (int k) starts
                   (st @ [i..<min (length tasks) (i + k)]) (res @ vs))"
proof -
  have e: "[i..<i + length (take k (drop i tasks))] = [i..<min (length tasks) (i + k)]"
  proof (cases "i \<le> length tasks")
    case True
    then have "i + length (take k (drop i tasks)) = min (length tasks) (i + k)" by auto
    then show ?thesis by (simp only:)
  next
    case False
    then show ?thesis by simp
  qed
  show ?thesis
    by (simp only: run_batches.simps py_slice_nat started_upt Let_def e nat_int)
qed

lemma run_batches_ok:
  "0 < k \<Longrightarrow> \<forall>t \<in> set (drop i tasks). \<not> isl t \<Longrightarrow>
     run_batches sched tasks (int k) (range_up (int i) (int (length tasks)) (int k)) st res =
       (st @ [i..<length tasks], Inr (res @ map projr (drop i tasks)))"
proof (induction "length tasks - i" arbitrary: i st res rule: less_induct)
  case less
  show ?case
  proof (cases "i < length tasks")
    case False
    then show ?thesis using less.prems(1) by (simp add: range_up_nat)
  next
    case True
    have sub: "set (take k (drop i tasks)) \<subseteq> set (drop i tasks)"
      by (rule set_take_subset)
    have g: "gather (sched (int i)) (take k (drop i tasks)) = Inr (map projr (take k (drop i tasks)))"
      using less.prems(2) sub by (intro gather_ok) auto
    have rest: "\<forall>t \<in> set (drop (i + k) tasks). \<not> isl t"
      using less.prems(2) set_drop_subset [of k "drop i tasks"] by (auto simp: add.commute)
    have ih: "run_batches sched tasks (int k) (range_up (int (i + k)) (int (length tasks)) (int k))
                (st @ [i..<min (length tasks) (i + k)]) (res @ map projr (take k (drop i tasks))) =
              ((st @ [i..<min (length tasks) (i + k)]) @ [i + k..<length tasks],
               Inr ((res @ map projr (take k (drop i tasks))) @ map projr (drop (i + k) tasks)))"
      using True less.prems(1) rest by (intro less.hyps) auto
    have up: "[i..<min (length tasks) (i + k)] @ [i + k..<length tasks] = [i..<length tasks]"
    proof (cases "i + k \<le> length tasks")
      case True
      then show ?thesis using upt_add_eq_append [of i "i + k" "length tasks - (i + k)"] by (simp add: min_def)
    next
      case False
      then show ?thesis by (simp add: min_def)
    qed
    have vals: "map projr (take k (drop i tasks)) @ map projr (drop (i + k) tasks) = map projr (drop i tasks)"
      using append_take_drop_id [of k "drop i tasks"]
      by (metis add.commute drop_drop map_append)
    note ih' = ih [unfolded of_nat_add]
    show ?thesis
      using True less.prems(1) up vals
      by (simp add: range_up_nat [of k i] run_batches_step g ih' del: run_batches.simps)
  qed
qed

lemma run_batches_fails:
  "0 < k \<Longrightarrow> \<exists>t \<in> set (drop i tasks). isl t \<Longrightarrow>
     \<exists>e j. run_batches sched tasks (int k) (range_up (int i) (int (length tasks)) (int k)) st res =
              (st @ [i..<min (length tasks) (i + (j + 1) * k)], Inl e) \<and>
           (\<forall>t \<in> set (take (j * k) (drop i tasks)). \<not> isl t) \<and>
           Inl e \<in> set (take k (drop (i + j * k) tasks))"
proof (induction "length tasks - i" arbitrary: i st res rule: less_induct)
  case less
  have lt: "i < length tasks"
    using less.prems(2) by (cases "i < length tasks") auto
  let ?batch = "take k (drop i tasks)"
  let ?st = "st @ [i..<min (length tasks) (i + k)]"
  have unfold: "run_batches sched tasks (int k) (range_up (int i) (int (length tasks)) (int k)) st res =
      (case gather (sched (int i)) ?batch of
         Inl e \<Rightarrow> (?st, Inl e)
       | Inr vs \<Rightarrow> run_batches sched tasks (int k)
                     (range_up (int (i + k)) (int (length tasks)) (int k)) ?st (res @ vs))"
    by (simp only: range_up_nat [OF less.prems(1), of i "length tasks"] lt if_True run_batches_step)
  show ?case
  proof (cases "\<exists>t \<in> set ?batch. isl t")
    case True
    from gather_fails [OF True, of "sched (int i)"]
    obtain e where e: "gather (sched (int i)) ?batch = Inl e" "Inl e \<in> set ?batch"
      by blast
    have "run_batches sched tasks (int k) (range_up (int i) (int (length tasks)) (int k)) st res =
            (st @ [i..<min (length tasks) (i + (0 + 1) * k)], Inl e)"
      using unfold e(1) by simp
    moreover have "\<forall>t \<in> set (take (0 * k) (drop i tasks)). \<not> isl t" by simp
    moreover have "Inl e \<in> set (take k (drop (i + 0 * k) tasks))" using e(2) by simp
    ultimately show ?thesis by blast
  next
    case False
    then have ok: "\<forall>t \<in> set ?batch. \<not> isl t" by blast
    have g: "gather (sched (int i)) ?batch = Inr (map projr ?batch)"
      by (rule gather_ok [OF ok])
    have split: "set (drop i tasks) = set ?batch \<union> set (drop (i + k) tasks)"
      using append_take_drop_id [of k "drop i tasks"]
      by (metis add.commute drop_drop set_append)
    have later: "\<exists>t \<in> set (drop (i + k) tasks). isl t"
      using less.prems(2) ok split by auto
    then have lt2: "i + k < length tasks"
      by (cases "i + k < length tasks") auto
    have dec: "length tasks - (i + k) < length tasks - i"
      using lt less.prems(1) by simp
    from less.hyps [OF dec less.prems(1) later, of ?st "res @ map projr ?batch"]
    obtain e j where
      run: "run_batches sched tasks (int k) (range_up (int (i + k)) (int (length tasks)) (int k))
              ?st (res @ map projr ?batch) =
            (?st @ [i + k..<min (length tasks) (i + k + (j + 1) * k)], Inl e)"
      and pre: "\<forall>t \<in> set (take (j * k) (drop (i + k) tasks)). \<not> isl t"
      and mem: "Inl e \<in> set (take k (drop (i + k + j * k) tasks))"
      by blast
    have m1: "min (length tasks) (i + k) = i + k" using lt2 by simp
    have m2: "i + k + (j + 1) * k = i + (Suc j + 1) * k" by simp
    have le: "i + k \<le> min (length tasks) (i + k + (j + 1) * k)" using lt2 by simp
    have up: "[i..<i + k] @ [i + k..<min (length tasks) (i + k + (j + 1) * k)] =
              [i..<min (length tasks) (i + k + (j + 1) * k)]"
      using le upt_add_eq_append [of i "i + k" "min (length tasks) (i + k + (j + 1) * k) - (i + k)"]
      by simp
    have r0: "run_batches sched tasks (int k) (range_up (int i) (int (length tasks)) (int k)) st res =
            (st @ [i..<min (length tasks) (i + k + (j + 1) * k)], Inl e)"
      by (simp only: unfold g sum.case run [unfolded m1] m1 append_assoc up)
    have r: "run_batches sched tasks (int k) (range_up (int i) (int (length tasks)) (int k)) st res =
            (st @ [i..<min (length tasks) (i + (Suc j + 1) * k)], Inl e)"
      by (simp only: r0 m2)
    have tk: "take (Suc j * k) (drop i tasks) = ?batch @ take (j * k) (drop (i + k) tasks)"
      using take_add [of k "j * k" "drop i tasks"] by (simp add: add.commute)
    have p: "\<forall>t \<in> set (take (Suc j * k) (drop i tasks)). \<not> isl t"
      unfolding tk using ok pre by auto
    have m: "Inl e \<in> set (take k (drop (i + Suc j * k) tasks))"
      using mem by (simp add: add.assoc)
    from r p m show ?thesis by blast
  qed
qed

lemma process_batch_pos:
  "0 < k \<Longrightarrow> process_batch sched tasks (int k) =
     run_batches sched tasks (int k) (range_up (int 0) (int (length tasks)) (int k)) [] []"
  by (simp add: process_batch_def py_range_def)

text \<open>
  Claim C2, for a positive batch size. If some task fails, the run fails with the
  exception of a task of the first batch that holds a failing task: no result list is
  returned, every batch before that one ran without failure, and the tasks started are
  exactly those of the batches up to and including it, so no later batch is started.
  If no task fails, all tasks are started and the complete result list is returned.
  A zero batch size makes \<open>range\<close> raise \<open>ValueError\<close> before any task is started; a
  negative batch size starts no task and returns the empty list.
\<close>

theorem process_batch_fail_fast:
  "(batch_size = 0 \<longrightarrow>
      process_batch sched tasks batch_size = ([], Inl (ValueError ''range() arg 3 must not be zero''))) \<and>
   (batch_size < 0 \<longrightarrow> process_batch sched tasks batch_size = ([], Inr [])) \<and>
   (0 < batch_size \<longrightarrow>
      ((\<exists>t \<in> set tasks. isl t) \<longrightarrow>
         (\<exists>e j. process_batch sched tasks batch_size =
                  ([0..<min (length tasks) ((j + 1) * nat batch_size)], Inl e) \<and>
               (\<forall>t \<in> set (take (j * nat batch_size) tasks). \<not> isl t) \<and>
               Inl e \<in> set (take (nat batch_size) (drop (j * nat batch_size) tasks)))) \<and>
      ((\<forall>t \<in> set tasks. \<not> isl t) \<longrightarrow>
         process_batch sched tasks batch_size = ([0..<length tasks], Inr (map projr tasks))))"
proof (intro conjI impI)
  assume "batch_size = 0"
  then show "process_batch sched tasks batch_size = ([], Inl (ValueError ''range() arg 3 must not be zero''))"
    by (simp add: process_batch_def py_range_def)
next
  assume "batch_size < 0"
  then show "process_batch sched tasks batch_size = ([], Inr [])"
    by (simp add: process_batch_def py_range_def range_down_empty)
next
  assume pos: "0 < batch_size" and bad: "\<exists>t \<in> set tasks. isl t"
  define k where "k = nat batch_size"
  have k: "0 < k" "batch_size = int k" using pos by (simp_all add: k_def)
  from run_batches_fails [OF k(1), of 0 tasks sched "[]" "[]"] bad
  show "\<exists>e j. process_batch sched tasks batch_size =
                  ([0..<min (length tasks) ((j + 1) * nat batch_size)], Inl e) \<and>
               (\<forall>t \<in> set (take (j * nat batch_size) tasks). \<not> isl t) \<and>
               Inl e \<in> set (take (nat batch_size) (drop (j * nat batch_size) tasks))"
    unfolding k(2) process_batch_pos [OF k(1)] by simp
next
  assume pos: "0 < batch_size" and ok: "\<forall>t \<in> set tasks. \<not> isl t"
  define k where "k = nat batch_size"
  have k: "0 < k" "batch_size = int k" using pos by (simp_all add: k_def)
  from run_batches_ok [OF k(1), of 0 tasks sched "[]" "[]"] ok
  show "process_batch sched tasks batch_size = ([0..<length tasks], Inr (map projr tasks))"
    unfolding k(2) process_batch_pos [OF k(1)] by simp
qed

theorem process_batch_fail_fast_witness:
  "(0 :: int) < 2 \<and>
   (\<exists>t \<in> set [Inr 1, Inr 2, Inl (OtherError ''boom''), Inr 4, Inr (5 :: int)]. isl t) \<and>
   (\<exists>e j. process_batch submission_order
             [Inr 1, Inr 2, Inl (OtherError ''boom''), Inr 4, Inr (5 :: int)] 2 =
             ([0..<min (length [Inr 1, Inr 2, Inl (OtherError ''boom''), Inr 4, Inr (5 :: int)])
                      ((j + 1) * nat 2)], Inl e) \<and>
          (\<forall>t \<in> set (take (j * nat 2)
                 [Inr 1, Inr 2, Inl (OtherError ''boom''), Inr 4, Inr (5 :: int)]). \<not> isl t) \<and>
          Inl e \<in> set (take (nat 2) (drop (j * nat 2)
                 [Inr 1, Inr 2, Inl (OtherError ''boom''), Inr 4, Inr (5 :: int)]))) \<and>
   \<not> (\<exists>t \<in> set [Inr 1, Inr 2, Inr (3 :: int) :: error + int]. isl t) \<and>
   process_batch submission_order [Inr 1, Inr 2, Inr (3 :: int)] 2 =
     ([0..<length [Inr 1, Inr 2, Inr (3 :: int) :: error + int]],
      Inr (map projr [Inr 1, Inr 2, Inr (3 :: int) :: error + int])) \<and>
   process_batch submission_order [Inr (1 :: int)] 0 =
     ([], Inl (ValueError ''range() arg 3 must not be zero'')) \<and>
   (- 1 :: int) < 0 \<and> process_batch submission_order [Inr (1 :: int)] (- 1) = ([], Inr [])"
proof -
  have pos: "(0 :: int) < 2" and neg: "(- 1 :: int) < 0"
    by simp_all
  have bad: "\<exists>t \<in> set [Inr 1, Inr 2, Inl (OtherError ''boom''), Inr 4, Inr (5 :: int)]. isl t"
    by simp
  have ok: "\<forall>t \<in> set [Inr 1, Inr 2, Inr (3 :: int) :: error + int]. \<not> isl t"
    by simp
  have none: "\<not> (\<exists>t \<in> set [Inr 1, Inr 2, Inr (3 :: int) :: error + int]. isl t)"
    by simp
  note fails = process_batch_fail_fast [of 2 submission_order
      "[Inr 1, Inr 2, Inl (OtherError ''boom''), Inr 4, Inr (5 :: int)]",
      THEN conjunct2, THEN conjunct2, THEN mp, OF pos, THEN conjunct1, THEN mp, OF bad]
  note succeeds = process_batch_fail_fast [of 2 submission_order "[Inr 1, Inr 2, Inr (3 :: int)]",
      THEN conjunct2, THEN conjunct2, THEN mp, OF pos, THEN conjunct2, THEN mp, OF ok]
  note zero = process_batch_fail_fast [of 0 submission_order "[Inr (1 :: int)]",
      THEN conjunct1, THEN mp, OF refl]
  note negative = process_batch_fail_fast [of "- 1" submission_order "[Inr (1 :: int)]",
      THEN conjunct2, THEN conjunct1, THEN mp, OF neg]
  show ?thesis
    by (intro conjI) (rule pos neg bad none fails succeeds zero negative)+
qed

text \<open>
  The claim as stated, for every batch size, fails at a negative one: the single task
  does not fail, yet it is never started and the list returned is empty.
\<close>

theorem process_batch_negative_counterexample:
  "\<not> isl (Inr 7 :: error + int) \<and>
   process_batch submission_order [Inr (7 :: int)] (- 1) = ([], Inr [])"
  by (simp add: process_batch_def py_range_def range_down.simps)

text \<open>
  Claim C5 (order preservation). For every list of tasks that all succeed, every positive
  batch size and every finishing order inside the batches, \<open>process_batch\<close> starts all
  tasks and returns exactly their results, the \<open>i\<close>-th result being the one of the
  \<open>i\<close>-th task submitted.
\<close>

theorem process_batch_order:
  "0 < batch_size \<Longrightarrow>
     process_batch sched (map Inr values) batch_size = ([0..<length values], Inr values)"
proof -
  assume pos: "0 < batch_size"
  define k where "k = nat batch_size"
  have k: "0 < k" "batch_size = int k" using pos by (simp_all add: k_def)
  have ok: "\<forall>t \<in> set (drop 0 (map Inr values :: (error + 'a) list)). \<not> isl t" by auto
  from run_batches_ok [OF k(1) ok, of sched "[]" "[]"]
  show ?thesis
    unfolding k(2) process_batch_pos [OF k(1)] by (simp add: comp_def)
qed

theorem process_batch_order_witness:
  "(0 :: int) < 2 \<and>
   process_batch submission_order (map Inr [10, 20, 30 :: int]) 2 =
     ([0..<length [10, 20, 30 :: int]], Inr [10, 20, 30])"
  using process_batch_order [of 2 submission_order "[10, 20, 30 :: int]"] by simp

section \<open>Content lookup\<close>

lemma select_rows_filter:
  "map snd (filter fst (zip (map (\<lambda>v. v = d) (map (\<lambda>r. r c) rs)) rs)) = filter (\<lambda>r. r c = d) rs"
  by (induction rs) simp_all

lemma fetch_one_content_lookup:
  assumes "s \<noteq> []" and "''doc_id'' \<in> set (df_columns corpus_data)"
  shows "fetch_one_content corpus_data (PStr s) column_name =
           (case filter (\<lambda>r. r ''doc_id'' = PStr s) (df_rows corpus_data) of
              [] \<Rightarrow> Inl (not_found s)
            | r # _ \<Rightarrow> if column_name \<in> set (df_columns corpus_data) then Inr (r column_name)
                       else Inl (KeyError column_name))"
proof -
  let ?m = "filter (\<lambda>r. r ''doc_id'' = PStr s) (df_rows corpus_data)"
  have ids: "get_column corpus_data ''doc_id'' = Inr (map (\<lambda>r. r ''doc_id'') (df_rows corpus_data))"
    using assms(2) by (simp add: get_column_def)
  have sel: "select_rows corpus_data
               (map (\<lambda>v. v = PStr s) (map (\<lambda>r. r ''doc_id'') (df_rows corpus_data))) =
             corpus_data\<lparr>df_rows := ?m\<rparr>"
    unfolding select_rows_def select_rows_filter ..
  have emp: "df_empty (corpus_data\<lparr>df_rows := ?m\<rparr>) \<longleftrightarrow> ?m = []"
    using assms(2) by (auto simp: df_empty_def)
  have col: "get_column (corpus_data\<lparr>df_rows := ?m\<rparr>) column_name =
               (if column_name \<in> set (df_columns corpus_data)
                then Inr (map (\<lambda>r. r column_name) ?m) else Inl (KeyError column_name))"
    by (simp add: get_column_def)
  have "fetch_one_content corpus_data (PStr s) column_name =
          (if ?m = [] then Inl (not_found s)
           else if column_name \<in> set (df_columns corpus_data)
                then iloc0 (map (\<lambda>r. r column_name) ?m) else Inl (KeyError column_name))"
    using assms(1) by (simp add: fetch_one_content_def ids sel emp col Let_def del: map_map)
  then show ?thesis
    by (cases ?m) (simp_all add: iloc0_def)
qed

text \<open>
  Claim C8. For a string identifier, \<open>fetch_one_content\<close> returns \<open>None\<close> when the
  identifier is empty. Otherwise, on a store that has the key column \<open>doc_id\<close> and the
  requested column, it fails exactly when no row has the identifier as its key, the
  failure being the \<open>ValueError\<close> that reports the identifier as not found, and when some
  row matches it returns the value that the first matching row has in the requested
  column.
\<close>

theorem fetch_one_content_string:
  "fetch_one_content corpus_data (PStr []) column_name = Inr PNone \<and>
   (s \<noteq> [] \<and> ''doc_id'' \<in> set (df_columns corpus_data) \<and>
    column_name \<in> set (df_columns corpus_data) \<longrightarrow>
      ((\<exists>e. fetch_one_content corpus_data (PStr s) column_name = Inl e) \<longleftrightarrow>
         (\<forall>r \<in> set (df_rows corpus_data). r ''doc_id'' \<noteq> PStr s)) \<and>
      ((\<forall>r \<in> set (df_rows corpus_data). r ''doc_id'' \<noteq> PStr s) \<longrightarrow>
         fetch_one_content corpus_data (PStr s) column_name = Inl (not_found s)) \<and>
      ((\<exists>r \<in> set (df_rows corpus_data). r ''doc_id'' = PStr s) \<longrightarrow>
         fetch_one_content corpus_data (PStr s) column_name =
           Inr (hd (filter (\<lambda>r. r ''doc_id'' = PStr s) (df_rows corpus_data)) column_name)))"
proof (intro conjI impI)
  show "fetch_one_content corpus_data (PStr []) column_name = Inr PNone"
    by (simp add: fetch_one_content_def)
next
  assume h: "s \<noteq> [] \<and> ''doc_id'' \<in> set (df_columns corpus_data) \<and>
    column_name \<in> set (df_columns corpus_data)"
  let ?m = "filter (\<lambda>r. r ''doc_id'' = PStr s) (df_rows corpus_data)"
  have eq: "fetch_one_content corpus_data (PStr s) column_name =
           (case ?m of [] \<Rightarrow> Inl (not_found s) | r # _ \<Rightarrow> Inr (r column_name))"
    using fetch_one_content_lookup [of s corpus_data column_name] h
    by (simp split: list.splits)
  have none: "?m = [] \<longleftrightarrow> (\<forall>r \<in> set (df_rows corpus_data). r ''doc_id'' \<noteq> PStr s)"
    by (simp add: filter_empty_conv)
  show "(\<exists>e. fetch_one_content corpus_data (PStr s) column_name = Inl e) \<longleftrightarrow>
         (\<forall>r \<in> set (df_rows corpus_data). r ''doc_id'' \<noteq> PStr s)"
    unfolding eq none [symmetric] by (cases ?m) simp_all
  {
    assume "\<forall>r \<in> set (df_rows corpus_data). r ''doc_id'' \<noteq> PStr s"
    then have "?m = []" using none by simp
    then show "fetch_one_content corpus_data (PStr s) column_name = Inl (not_found s)"
      unfolding eq by simp
  }
  {
    assume "\<exists>r \<in> set (df_rows corpus_data). r ''doc_id'' = PStr s"
    then have "?m \<noteq> []" using none by blast
    then show "fetch_one_content corpus_data (PStr s) column_name = Inr (hd ?m column_name)"
      unfolding eq by (cases ?m) simp_all
  }
qed

theorem fetch_one_content_string_witness:
  "''d2'' \<noteq> [] \<and> ''doc_id'' \<in> set (df_columns sample_corpus) \<and>
   ''contents'' \<in> set (df_columns sample_corpus) \<and>
   (\<exists>r \<in> set (df_rows sample_corpus). r ''doc_id'' = PStr ''d2'') \<and>
   fetch_one_content sample_corpus (PStr ''d2'') ''contents'' = Inr (PStr ''second'') \<and>
   \<not> (\<exists>r \<in> set (df_rows sample_corpus). r ''doc_id'' = PStr ''zz'') \<and>
   fetch_one_content sample_corpus (PStr ''zz'') ''contents'' = Inl (not_found ''zz'')"
  using fetch_one_content_string [of sample_corpus "''contents''" "''d2''"]
    fetch_one_content_string [of sample_corpus "''contents''" "''zz''"]
  by (simp add: sample_corpus_def)

text \<open>
  Claim C10. For an identifier that is not a string, such as \<open>None\<close> or a number,
  \<open>fetch_one_content\<close> returns \<open>None\<close> whatever the store is, also for a store without
  the key column, where any lookup would raise: the store is not consulted and nothing
  is raised.
\<close>

theorem fetch_one_content_non_string:
  "\<not> is_str doc_id \<Longrightarrow> fetch_one_content corpus_data doc_id column_name = Inr PNone"
  by (simp add: fetch_one_content_def)

theorem fetch_one_content_non_string_witness:
  "\<not> is_str PNone \<and> fetch_one_content no_columns PNone ''contents'' = Inr PNone \<and>
   \<not> is_str (PInt 7) \<and> fetch_one_content sample_corpus (PInt 7) ''contents'' = Inr PNone"
  using fetch_one_content_non_string [of PNone no_columns "''contents''"]
    fetch_one_content_non_string [of "PInt 7" sample_corpus "''contents''"]
  by simp


section \<open>Embedding of queries and contents\<close>

lemma reconstruct_loop_shape:
  "length flat = length (concat rows) \<Longrightarrow>
     map length (reconstruct_loop (pre @ flat) (int (length pre)) (row_lengths rows) []) =
       map length rows \<and>
     concat (reconstruct_loop (pre @ flat) (int (length pre)) (row_lengths rows) []) = flat"
proof (induction rows arbitrary: pre flat)
  case Nil
  then show ?case by (simp add: row_lengths_def)
next
  case (Cons r rows)
  let ?h = "take (length r) flat" and ?t = "drop (length r) flat"
  have len: "length r \<le> length flat" using Cons.prems by simp
  have lh: "length ?h = length r" using len by simp
  have lt: "length ?t = length (concat rows)" using Cons.prems by simp
  have split: "(pre @ ?h) @ ?t = pre @ flat" by simp
  have head: "py_slice (pre @ flat) (int (length pre)) (int (length pre) + int (length r)) = ?h"
    by (simp add: py_slice_nat)
  have ih: "map length (reconstruct_loop (pre @ flat) (int (length pre) + int (length r))
                (row_lengths rows) []) = map length rows \<and>
            concat (reconstruct_loop (pre @ flat) (int (length pre) + int (length r))
                (row_lengths rows) []) = ?t"
    using Cons.IH [OF lt, of "pre @ ?h"] lh unfolding split by simp
  have unfold: "reconstruct_loop (pre @ flat) (int (length pre)) (row_lengths (r # rows)) [] =
      ?h # reconstruct_loop (pre @ flat) (int (length pre) + int (length r)) (row_lengths rows) []"
    by (simp add: row_lengths_def reconstruct_loop_Cons head del: reconstruct_loop.simps)
  show ?case
    unfolding unfold using ih lh by simp
qed

lemma reconstruct_list_shape:
  "length flat = length (concat rows) \<Longrightarrow>
     map length (reconstruct_list flat (row_lengths rows)) = map length rows \<and>
     concat (reconstruct_list flat (row_lengths rows)) = flat"
  using reconstruct_loop_shape [of flat rows "[]"] by (simp add: reconstruct_list_def)

lemma length_openai_truncate_by_token:
  "length (openai_truncate_by_token enc texts limit name) = length texts"
  by (simp add: openai_truncate_by_token_def Let_def)

text \<open>
  Claim C9 (shape preservation). If the provider returns one vector per text it is given,
  \<open>embedding_query_content\<close> returns the provider's vectors for the queries, one per
  query in the order of the queries, and arranges the provider's vectors for the
  flattened contents, in order, in rows that have the lengths of the rows of
  \<open>contents_list\<close>.
\<close>

theorem embedding_query_content_shape:
  assumes "\<forall>texts. length (text_embedding_batch m batch texts) = length texts"
  shows "\<exists>query_embeddings content_embeddings.
           embedding_query_content encoding_for_model queries contents_list (Some m) batch =
             Inr (query_embeddings, content_embeddings) \<and>
           query_embeddings =
             text_embedding_batch m batch (embedded_texts encoding_for_model m queries) \<and>
           length query_embeddings = length queries \<and>
           map length content_embeddings = map length contents_list \<and>
           concat content_embeddings =
             text_embedding_batch m batch (embedded_texts encoding_for_model m (concat contents_list))"
proof -
  let ?q = "embedded_texts encoding_for_model m queries"
  let ?c = "embedded_texts encoding_for_model m (concat contents_list)"
  let ?flat = "text_embedding_batch m batch ?c"
  have lq: "length ?q = length queries" and lc: "length ?c = length (concat contents_list)"
    by (simp_all add: embedded_texts_def length_openai_truncate_by_token)
  have lf: "length ?flat = length (concat contents_list)"
    using assms lc by simp
  have run: "embedding_query_content encoding_for_model queries contents_list (Some m) batch =
               Inr (text_embedding_batch m batch ?q, reconstruct_list ?flat (row_lengths contents_list))"
    by (simp add: embedding_query_content_def get_text_embedding_batch_def embedded_texts_def Let_def)
  show ?thesis
    using run reconstruct_list_shape [OF lf] assms lq by simp
qed

theorem embedding_query_content_shape_witness:
  "(\<forall>texts. length (text_embedding_batch length_embedder 128 texts) = length texts) \<and>
   (\<exists>query_embeddings content_embeddings.
      embedding_query_content char_tokenizer [''q1'', ''q2''] sample_contents
        (Some length_embedder) 128 = Inr (query_embeddings, content_embeddings) \<and>
      length query_embeddings = 2 \<and>
      map length content_embeddings = [3, 0, 2])"
proof -
  have h: "\<forall>texts. length (text_embedding_batch length_embedder 128 texts) = length texts"
    by (simp add: length_embedder_def)
  from embedding_query_content_shape [OF h, of char_tokenizer "[''q1'', ''q2'']" sample_contents]
  obtain q c where
    "embedding_query_content char_tokenizer [''q1'', ''q2''] sample_contents
       (Some length_embedder) 128 = Inr (q, c)"
    "length q = length [''q1'', ''q2'']"
    "map length c = map length sample_contents"
    by blast
  then show ?thesis
    using h by (auto simp: sample_contents_def)
qed

section \<open>Flatten, apply, regroup\<close>















lemma mantissa_shift_small: "a < 2 ^ 53 \<Longrightarrow> mantissa_shift a = 0"
  by (subst mantissa_shift.simps) simp

lemma float64_of_int_small: "\<bar>i\<bar> < 2 ^ 53 \<Longrightarrow> float64_of_int i = real_of_int i"
proof -
  assume small: "\<bar>i\<bar> < 2 ^ 53"
  define a where "a = nat \<bar>i\<bar>"
  have "a < 2 ^ 53" using small by (simp add: a_def nat_less_iff)
  then have e: "mantissa_shift a = 0" by (rule mantissa_shift_small)
  have "float64_of_int i = (if i < 0 then - real a else real a)"
    unfolding float64_of_int_def Let_def a_def [symmetric] e by simp
  also have "\<dots> = real_of_int i"
    by (simp add: a_def)
  finally show ?thesis .
qed


lemma sint_one: "sint (1 :: 64 word) = 1"
  by simp




text \<open>
  More runs of the identity: an integer that no \<open>float64\<close> represents comes back as
  its neighbour when an empty row puts NaN beside it, while integers alone, strings and
  a column of \<open>None\<close> come back as they are.
\<close>

lemma mantissa_shift_example: "mantissa_shift 9007199254740993 = 1"
proof -
  have "mantissa_shift 9007199254740993 = Suc (mantissa_shift (9007199254740993 div 2))"
    by (subst mantissa_shift.simps) simp
  also have "mantissa_shift (9007199254740993 div 2) = 0"
    by (rule mantissa_shift_small) simp
  finally show ?thesis by simp
qed

lemma float64_of_int_large: "float64_of_int 9007199254740993 = 9007199254740992"
  by (simp add: float64_of_int_def Let_def mantissa_shift_example)

lemma flatten_apply_large_int:
  "flatten_apply CNaN pandas_column Inr [[CInt 9007199254740993], []] =
     Inr [[CFloat 9007199254740992], [CNaN]]"
  by (simp add: flatten_apply_def df_explode_def groupby_level0_def pandas_column_def
      float64_of_int_large)

lemma flatten_apply_identity_examples:
  "flatten_apply CNaN pandas_column Inr [[CInt 1, CInt 2], [], [CNone]] =
     Inr [[CFloat 1, CFloat 2], [CNaN], [CNaN]]"
  "flatten_apply CNaN pandas_column Inr [[CStr ''a'', CStr ''b''], [], [CStr ''c'']] =
     Inr [[CStr ''a'', CStr ''b''], [CNaN], [CStr ''c'']]"
  "flatten_apply CNaN pandas_column Inr [[CInt 1, CInt 2], [CInt 3]] =
     Inr [[CInt 1, CInt 2], [CInt 3]]"
  "flatten_apply CNaN pandas_column Inr [[CNone], [CNone]] = Inr [[CNone], [CNone]]"
  by (simp_all add: flatten_apply_def df_explode_def groupby_level0_def pandas_column_def
      float64_of_int_small)

section \<open>Parameter combinations\<close>

lemma make_combinations_unfold:
  "make_combinations list_of_set target_dict =
     map (zip (map fst target_dict))
       (product_lists (map (\<lambda>x. delete_duplicate list_of_set (as_list (snd x))) target_dict))"
  by (simp add: make_combinations_def Let_def comp_def)

lemma delete_duplicate_hashable:
  assumes "enumerates_sets list_of_set" and "\<forall>c \<in> set x. is_hashable c"
  shows "distinct (delete_duplicate list_of_set x)"
    and "set (delete_duplicate list_of_set x) = set x"
proof -
  have "\<not> list_ex (\<lambda>elem. \<not> is_hashable elem) x"
    using assms(2) by (simp add: list_ex_iff)
  then have "delete_duplicate list_of_set x = list_of_set x"
    by (simp add: delete_duplicate_def)
  then show "distinct (delete_duplicate list_of_set x)"
    and "set (delete_duplicate list_of_set x) = set x"
    using assms(1) by (simp_all add: enumerates_sets_def)
qed

lemma zip_keys_inj:
  "length xs = length keys \<Longrightarrow> length ys = length keys \<Longrightarrow>
     zip keys xs = zip keys ys \<Longrightarrow> xs = ys"
  by (metis map_snd_zip)

lemma make_combinations_length:
  assumes "enumerates_sets list_of_set"
    and "\<forall>x \<in> set target_dict. \<forall>c \<in> set (as_list (snd x)). is_hashable c"
  shows "length (make_combinations list_of_set target_dict) =
           prod_list (map (\<lambda>x. card (set (as_list (snd x)))) target_dict)"
proof -
  have "map length (map (\<lambda>x. delete_duplicate list_of_set (as_list (snd x))) target_dict) =
        map (\<lambda>x. card (set (as_list (snd x)))) target_dict"
  proof (rule map_ext [THEN trans [OF map_map]], rule impI)
    fix x assume "x \<in> set target_dict"
    then have h: "\<forall>c \<in> set (as_list (snd x)). is_hashable c" using assms(2) by blast
    show "(length \<circ> (\<lambda>x. delete_duplicate list_of_set (as_list (snd x)))) x =
            card (set (as_list (snd x)))"
      using delete_duplicate_hashable [OF assms(1) h] distinct_card
      by (metis comp_apply)
  qed
  then show ?thesis
    by (simp only: make_combinations_unfold length_map length_product_lists prod_list.eq_foldr)
qed

lemma make_combinations_distinct:
  assumes "enumerates_sets list_of_set"
    and "\<forall>x \<in> set target_dict. \<forall>c \<in> set (as_list (snd x)). is_hashable c"
  shows "distinct (make_combinations list_of_set target_dict)"
proof -
  let ?lists = "map (\<lambda>x. delete_duplicate list_of_set (as_list (snd x))) target_dict"
  have "\<forall>xs \<in> set ?lists. distinct xs"
    using delete_duplicate_hashable(1) [OF assms(1)] assms(2) by auto
  then have d: "distinct (product_lists ?lists)"
    by (rule distinct_product_lists)
  have "inj_on (zip (map fst target_dict)) (set (product_lists ?lists))"
  proof (rule inj_onI)
    fix xs ys
    assume "xs \<in> set (product_lists ?lists)" "ys \<in> set (product_lists ?lists)"
      and eq: "zip (map fst target_dict) xs = zip (map fst target_dict) ys"
    then have "length xs = length (map fst target_dict)" "length ys = length (map fst target_dict)"
      by (simp_all add: in_set_product_lists_length)
    then show "xs = ys" using eq by (rule zip_keys_inj)
  qed
  with d show ?thesis
    by (simp add: make_combinations_unfold distinct_map)
qed

lemma make_combinations_members:
  assumes "enumerates_sets list_of_set"
    and "\<forall>x \<in> set target_dict. \<forall>c \<in> set (as_list (snd x)). is_hashable c"
    and "d \<in> set (make_combinations list_of_set target_dict)"
  shows "map fst d = map fst target_dict \<and>
         list_all2 (\<lambda>c x. c \<in> set (as_list (snd x))) (map snd d) target_dict"
proof -
  let ?lists = "map (\<lambda>x. delete_duplicate list_of_set (as_list (snd x))) target_dict"
  from assms(3) obtain combo where combo: "combo \<in> set (product_lists ?lists)"
    and d: "d = zip (map fst target_dict) combo"
    by (auto simp: make_combinations_unfold)
  have len: "length combo = length target_dict"
    using in_set_product_lists_length [OF combo] by simp
  have all2: "list_all2 (\<lambda>c ys. c \<in> set ys) combo ?lists"
    using combo by (simp add: product_lists_set)
  have "list_all2 (\<lambda>c x. c \<in> set (as_list (snd x))) combo target_dict"
  proof (rule list_all2_all_nthI [OF len])
    fix n assume n: "n < length combo"
    then have "combo ! n \<in> set (?lists ! n)"
      by (rule list_all2_nthD [OF all2])
    moreover have "?lists ! n = delete_duplicate list_of_set (as_list (snd (target_dict ! n)))"
      using n len by simp
    moreover have "\<forall>c \<in> set (as_list (snd (target_dict ! n))). is_hashable c"
      using assms(2) n len nth_mem [of n target_dict] by auto
    ultimately show "combo ! n \<in> set (as_list (snd (target_dict ! n)))"
      using delete_duplicate_hashable(2) [OF assms(1)] by simp
  qed
  then show ?thesis
    using len by (simp add: d)
qed

text \<open>
  Claim C7. For a dict whose candidate values are all hashable, and whatever the order
  in which \<open>list(set(x))\<close> enumerates, \<open>make_combinations\<close> returns as many dicts as
  the product over the keys of the number of distinct candidates of the key; the dicts
  are pairwise distinct; each has exactly the keys of the input, in its order, and binds
  every key to one of the candidates of that key. For \<open>{"a": [1, 1, 2]}\<close> the result
  has two dicts, one with \<open>a = 1\<close> and one with \<open>a = 2\<close>.
\<close>

theorem make_combinations_product:
  assumes "distinct (map fst target_dict)"
    and "\<forall>x \<in> set target_dict. \<forall>c \<in> set (as_list (snd x)). is_hashable c"
    and "enumerates_sets list_of_set"
  shows "length (make_combinations list_of_set target_dict) =
           prod_list (map (\<lambda>x. card (set (as_list (snd x)))) target_dict) \<and>
         distinct (make_combinations list_of_set target_dict) \<and>
         (\<forall>d \<in> set (make_combinations list_of_set target_dict).
            map fst d = map fst target_dict \<and>
            list_all2 (\<lambda>c x. c \<in> set (as_list (snd x))) (map snd d) target_dict) \<and>
         length (make_combinations list_of_set [(''a'', PList [PInt 1, PInt 1, PInt 2])]) = 2 \<and>
         set (make_combinations list_of_set [(''a'', PList [PInt 1, PInt 1, PInt 2])]) =
           {[(''a'', PInt 1)], [(''a'', PInt 2)]}"
proof -
  let ?ex = "[(''a'', PList [PInt 1, PInt 1, PInt 2])]"
  let ?ls = "delete_duplicate list_of_set [PInt 1, PInt 1, PInt 2]"
  have hash: "\<forall>c \<in> set [PInt 1, PInt 1, PInt 2]. is_hashable c" by simp
  have ls: "distinct ?ls" "set ?ls = {PInt 1, PInt 2}"
    using delete_duplicate_hashable [OF assms(3) hash] by simp_all
  have run: "make_combinations list_of_set ?ex = map (\<lambda>c. [(''a'', c)]) ?ls"
    by (simp add: make_combinations_unfold as_list_def comp_def)
  have "length ?ls = card (set ?ls)" using ls(1) by (simp add: distinct_card)
  then have l2: "length (make_combinations list_of_set ?ex) = 2"
    unfolding run ls(2) by simp
  have s2: "set (make_combinations list_of_set ?ex) = {[(''a'', PInt 1)], [(''a'', PInt 2)]}"
    unfolding run set_map ls(2) by simp
  show ?thesis
    using make_combinations_length [OF assms(3,2)] make_combinations_distinct [OF assms(3,2)]
      make_combinations_members [OF assms(3,2)] l2 s2
    by blast
qed

theorem make_combinations_product_witness:
  "distinct (map fst sample_space) \<and>
   list_all (\<lambda>x. list_all is_hashable (as_list (snd x))) sample_space \<and>
   enumerates_sets remdups \<and>
   length (make_combinations remdups sample_space) =
     prod_list (map (\<lambda>x. card (set (as_list (snd x)))) sample_space) \<and>
   distinct (make_combinations remdups sample_space) \<and>
   list_all (\<lambda>d. map fst d = map fst sample_space \<and>
               list_all2 (\<lambda>c x. c \<in> set (as_list (snd x))) (map snd d) sample_space)
     (make_combinations remdups sample_space) \<and>
   length (make_combinations remdups [(''a'', PList [PInt 1, PInt 1, PInt 2])]) = 2 \<and>
   set (make_combinations remdups [(''a'', PList [PInt 1, PInt 1, PInt 2])]) =
     {[(''a'', PInt 1)], [(''a'', PInt 2)]}"
proof -
  have keys: "distinct (map fst sample_space)"
    by (simp add: sample_space_def)
  have hashable: "\<forall>x \<in> set sample_space. \<forall>c \<in> set (as_list (snd x)). is_hashable c"
    by (simp add: sample_space_def as_list_def)
  have enum: "enumerates_sets remdups"
    by (simp add: enumerates_sets_def)
  note product = make_combinations_product [OF keys hashable enum]
  have hashable': "list_all (\<lambda>x. list_all is_hashable (as_list (snd x))) sample_space"
    using hashable by (simp add: list_all_iff)
  have members: "list_all (\<lambda>d. map fst d = map fst sample_space \<and>
               list_all2 (\<lambda>c x. c \<in> set (as_list (snd x))) (map snd d) sample_space)
     (make_combinations remdups sample_space)"
    using product [THEN conjunct2, THEN conjunct2, THEN conjunct1]
    by (simp add: list_all_iff)
  show ?thesis
    by (intro conjI keys hashable' enum members product [THEN conjunct1]
        product [THEN conjunct2, THEN conjunct1]
        product [THEN conjunct2, THEN conjunct2, THEN conjunct2, THEN conjunct1]
        product [THEN conjunct2, THEN conjunct2, THEN conjunct2, THEN conjunct2])
qed

lemma make_combinations_example:
  "make_combinations remdups sample_space =
     [[(''a'', PInt 1), (''b'', PStr ''x'')], [(''a'', PInt 2), (''b'', PStr ''x'')]]"
  by (simp add: make_combinations_def sample_space_def as_list_def delete_duplicate_def)

end
